theory Spec2Isabelle
  imports Main
begin

section \<open>The record store of \<^verbatim>\<open>backend/app.py\<close>\<close>

text \<open>
  Modelled from the spec: the table declarations (the \<^verbatim>\<open>CREATE TABLE\<close> statements of
  \<^verbatim>\<open>medbuddy.db\<close>) are not in \<^verbatim>\<open>app.py\<close>. The columns are those the SQL statements of
  \<^verbatim>\<open>app.py\<close> name and section 3 of the spec lists. A table is the list of its rows in
  insertion order. The column \<^verbatim>\<open>id\<close> of either table is the integer primary key SQLite
  assigns (\<^verbatim>\<open>INSERT INTO slots VALUES (NULL, ...)\<close>); \<^verbatim>\<open>is_booked\<close> holds 0 or 1 and is a
  \<open>bool\<close> here (\<open>False\<close> for 0); \<^verbatim>\<open>meeting_link\<close> and \<^verbatim>\<open>admin_remarks\<close> are not given a
  value by \<^verbatim>\<open>book\<close>, so they are nullable (\<open>None\<close> is \<^verbatim>\<open>NULL\<close>). Constraints that the
  declarations may put on a column beyond the primary key are not part of the model.
\<close>

record slot =
  s_id :: int
  slot_date :: string
  start_time :: string
  end_time :: string
  is_booked :: bool

record appointment =
  a_id :: int
  confirmation_code :: string
  patient_name :: string
  mobile :: string
  address :: string
  slot_id :: int
  appointment_date :: string
  slot_time :: string
  status :: string
  meeting_link :: "string option"
  admin_remarks :: "string option"
  created_at :: string
  updated_at :: string

record db =
  slots :: "slot list"
  appointments :: "appointment list"

text \<open>
  The JSON bodies of the requests (\<^verbatim>\<open>f = request.json\<close>). A field is \<open>None\<close> when the key
  is absent, so that \<^verbatim>\<open>f["key"]\<close> raises \<^verbatim>\<open>KeyError\<close>; a value that is present has the type
  the data model gives its column.
\<close>

record book_form =
  f_slot_id :: "int option"
  f_patient_name :: "string option"
  f_mobile :: "string option"
  f_address :: "string option"

record slot_form =
  f_slot_date :: "string option"
  f_start_time :: "string option"
  f_end_time :: "string option"

record update_form =
  f_status :: "string option"
  f_meeting_link :: "string option"
  f_remarks :: "string option"

text \<open>A reading of the clock, \<^verbatim>\<open>datetime.now()\<close>.\<close>

record datetime =
  year :: nat
  month :: nat
  day :: nat
  hour :: nat
  minute :: nat
  second :: nat
  microsecond :: nat

text \<open>
  What a request can end with other than success: the unhandled \<^verbatim>\<open>KeyError\<close> of a missing
  key (with the key), the unhandled \<^verbatim>\<open>OverflowError\<close> that \<^verbatim>\<open>sqlite3\<close> raises when it is given
  an integer beyond 64 bits as a parameter, and the answer
  \<^verbatim>\<open>{"error": "Slot not available"}, 400\<close> of \<^verbatim>\<open>book\<close>, which is the spec's \<open>SlotUnavailable\<close>.
\<close>

datatype error = KeyError string | OverflowError | SlotUnavailable

section \<open>Python's string formatting\<close>

definition digit_char :: "nat \<Rightarrow> char" where
  "digit_char d = char_of (48 + d)"

text \<open>\<^verbatim>\<open>str(n)\<close> for a natural number: its decimal digits, no leading zero.\<close>

fun str_nat :: "nat \<Rightarrow> string" where
  "str_nat n = (if n < 10 then [digit_char n] else str_nat (n div 10) @ [digit_char (n mod 10)])"

text \<open>\<^verbatim>\<open>s.zfill(width)\<close>: zeros on the left up to the width, after a leading sign.\<close>

definition zfill :: "nat \<Rightarrow> string \<Rightarrow> string" where
  "zfill width s =
     (if width \<le> length s then s
      else (case s of
              [] \<Rightarrow> replicate width CHR ''0''
            | c # cs \<Rightarrow>
                if c = CHR ''+'' \<or> c = CHR ''-''
                then c # replicate (width - length s) CHR ''0'' @ cs
                else replicate (width - length s) CHR ''0'' @ s))"

text \<open>
  \<^verbatim>\<open>t.strftime('%Y%m%d')\<close>. The year is written with four digits, which is what every
  platform does from the year 1000 on.
\<close>

definition strftime_Ymd :: "datetime \<Rightarrow> string" where
  "strftime_Ymd t = zfill 4 (str_nat (year t)) @ zfill 2 (str_nat (month t)) @ zfill 2 (str_nat (day t))"

text \<open>\<^verbatim>\<open>t.isoformat()\<close>: the microseconds are left out when they are zero.\<close>

definition isoformat :: "datetime \<Rightarrow> string" where
  "isoformat t =
     zfill 4 (str_nat (year t)) @ ''-'' @ zfill 2 (str_nat (month t)) @ ''-'' @ zfill 2 (str_nat (day t))
     @ ''T'' @ zfill 2 (str_nat (hour t)) @ '':'' @ zfill 2 (str_nat (minute t)) @ '':''
     @ zfill 2 (str_nat (second t))
     @ (if microsecond t = 0 then [] else ''.'' @ zfill 6 (str_nat (microsecond t)))"

section \<open>The SQL statements\<close>

text \<open>The key SQLite gives a row inserted without one: 1 in an empty table, else the largest plus one.\<close>

definition next_rowid :: "int list \<Rightarrow> int" where
  "next_rowid ids = (if ids = [] then 1 else Max (set ids) + 1)"

text \<open>
  The integers SQLite stores and \<^verbatim>\<open>sqlite3\<close> accepts as a parameter: those of 64 bits, signed.
  A JSON body can carry any integer.
\<close>

definition fits_int64 :: "int \<Rightarrow> bool" where
  "fits_int64 i = (- (2 ^ 63) \<le> i \<and> i < 2 ^ 63)"

text \<open>\<^verbatim>\<open>UPDATE slots SET is_booked=? WHERE id=?\<close>\<close>

definition set_booked :: "bool \<Rightarrow> int \<Rightarrow> slot list \<Rightarrow> slot list" where
  "set_booked b sid sl = map (\<lambda>r. if s_id r = sid then r\<lparr>is_booked := b\<rparr> else r) sl"

section \<open>The patient's operations\<close>

text \<open>The confirmation code of \<^verbatim>\<open>book\<close>, from the clock reading and the count.\<close>

definition make_code :: "datetime \<Rightarrow> nat \<Rightarrow> string" where
  "make_code t count = ''MB-'' @ strftime_Ymd t @ ''-'' @ zfill 4 (str_nat count)"

text \<open>
  \<^verbatim>\<open>book\<close> (lines 116 to 163). The clock is read twice, for the code (\<open>t_code\<close>) and for the
  timestamps (\<open>t_now\<close>). The keys of the body are read in the order of the source:
  \<^verbatim>\<open>slot_id\<close> before the slot is looked up, the other three when the row is built, after
  the slot was found. Nothing is written before the last of them is read. The \<^verbatim>\<open>SELECT\<close>
  of lines 121 to 124 takes \<^verbatim>\<open>slot_id\<close> as its parameter and raises \<^verbatim>\<open>OverflowError\<close> when the
  integer does not fit 64 bits.
\<close>

definition book :: "book_form \<Rightarrow> datetime \<Rightarrow> datetime \<Rightarrow> db \<Rightarrow> (error + string) \<times> db" where
  "book f t_code t_now s =
     (case f_slot_id f of
        None \<Rightarrow> (Inl (KeyError ''slot_id''), s)
      | Some sid \<Rightarrow>
          if \<not> fits_int64 sid then (Inl OverflowError, s)
          else
          (case find (\<lambda>r. s_id r = sid \<and> \<not> is_booked r) (slots s) of
             None \<Rightarrow> (Inl SlotUnavailable, s)
           | Some slot \<Rightarrow>
               let count = length (appointments s) + 1;
                   code = make_code t_code count;
                   now = isoformat t_now
               in (case f_patient_name f of
                     None \<Rightarrow> (Inl (KeyError ''patient_name''), s)
                   | Some pn \<Rightarrow>
                  (case f_mobile f of
                     None \<Rightarrow> (Inl (KeyError ''mobile''), s)
                   | Some mb \<Rightarrow>
                  (case f_address f of
                     None \<Rightarrow> (Inl (KeyError ''address''), s)
                   | Some ad \<Rightarrow>
                       (Inr code,
                        \<lparr>slots = set_booked True (s_id slot) (slots s),
                         appointments = appointments s @
                           [\<lparr>a_id = next_rowid (map a_id (appointments s)),
                             confirmation_code = code,
                             patient_name = pn,
                             mobile = mb,
                             address = ad,
                             slot_id = s_id slot,
                             appointment_date = slot_date slot,
                             slot_time = start_time slot @ ''-'' @ end_time slot,
                             status = ''RESERVED'',
                             meeting_link = None,
                             admin_remarks = None,
                             created_at = now,
                             updated_at = now\<rparr>]\<rparr>))))))"

text \<open>
  \<^verbatim>\<open>book\<close> in its two parts. Each request has a connection of its own (\<^verbatim>\<open>db()\<close>, line 119);
  the source takes no lock and begins no transaction before it reads. Lines 121 to 132
  only read: the free slot, the count, the clock. Lines 134 to 157 write with what was
  read: the \<^verbatim>\<open>INSERT\<close>, then an \<^verbatim>\<open>UPDATE\<close> that does not ask again whether the slot is free,
  then the commit. The statements of another request can run between the two parts.
\<close>

record book_reads =
  r_slot :: slot
  r_code :: string
  r_now :: string

definition book_read :: "book_form \<Rightarrow> datetime \<Rightarrow> datetime \<Rightarrow> db \<Rightarrow> error + book_reads" where
  "book_read f t_code t_now s =
     (case f_slot_id f of
        None \<Rightarrow> Inl (KeyError ''slot_id'')
      | Some sid \<Rightarrow>
          if \<not> fits_int64 sid then Inl OverflowError
          else
          (case find (\<lambda>r. s_id r = sid \<and> \<not> is_booked r) (slots s) of
             None \<Rightarrow> Inl SlotUnavailable
           | Some slot \<Rightarrow>
               Inr \<lparr>r_slot = slot,
                    r_code = make_code t_code (length (appointments s) + 1),
                    r_now = isoformat t_now\<rparr>))"

definition book_write :: "book_form \<Rightarrow> book_reads \<Rightarrow> db \<Rightarrow> (error + string) \<times> db" where
  "book_write f r s =
     (case f_patient_name f of
        None \<Rightarrow> (Inl (KeyError ''patient_name''), s)
      | Some pn \<Rightarrow>
     (case f_mobile f of
        None \<Rightarrow> (Inl (KeyError ''mobile''), s)
      | Some mb \<Rightarrow>
     (case f_address f of
        None \<Rightarrow> (Inl (KeyError ''address''), s)
      | Some ad \<Rightarrow>
          (Inr (r_code r),
           \<lparr>slots = set_booked True (s_id (r_slot r)) (slots s),
            appointments = appointments s @
              [\<lparr>a_id = next_rowid (map a_id (appointments s)),
                confirmation_code = r_code r,
                patient_name = pn,
                mobile = mb,
                address = ad,
                slot_id = s_id (r_slot r),
                appointment_date = slot_date (r_slot r),
                slot_time = start_time (r_slot r) @ ''-'' @ end_time (r_slot r),
                status = ''RESERVED'',
                meeting_link = None,
                admin_remarks = None,
                created_at = r_now r,
                updated_at = r_now r\<rparr>]\<rparr>))))"

text \<open>The rest of a request after its reads: the answer of line 128, or the writes.\<close>

definition book_finish :: "book_form \<Rightarrow> error + book_reads \<Rightarrow> db \<Rightarrow> (error + string) \<times> db" where
  "book_finish f r s = (case r of Inl e \<Rightarrow> (Inl e, s) | Inr x \<Rightarrow> book_write f x s)"

text \<open>
  Two concurrent requests in the order read, read, write, write: both read the state
  \<open>s\<close>, the first then writes, and the second writes on the state the first left. The
  result is the two answers and the final state.
\<close>

definition book_read_read_write_write ::
  "book_form \<Rightarrow> datetime \<Rightarrow> datetime \<Rightarrow> book_form \<Rightarrow> datetime \<Rightarrow> datetime \<Rightarrow> db \<Rightarrow>
   (error + string) \<times> (error + string) \<times> db" where
  "book_read_read_write_write f1 t_code1 t_now1 f2 t_code2 t_now2 s =
     (let r1 = book_read f1 t_code1 t_now1 s;
          r2 = book_read f2 t_code2 t_now2 s;
          w1 = book_finish f1 r1 s;
          w2 = book_finish f2 r2 (snd w1)
      in (fst w1, fst w2, snd w2))"

text \<open>
  \<^verbatim>\<open>cancel\<close> (lines 192 to 212): the first row with the code decides; the first
  \<^verbatim>\<open>UPDATE\<close> reaches every row with the code. The answer is always \<^verbatim>\<open>{"success": True}\<close>.
\<close>

definition cancel :: "string \<Rightarrow> db \<Rightarrow> (error + unit) \<times> db" where
  "cancel code s =
     (case find (\<lambda>a. confirmation_code a = code) (appointments s) of
        None \<Rightarrow> (Inr (), s)
      | Some appt \<Rightarrow>
          if status appt = ''RESERVED''
          then (Inr (),
                \<lparr>slots = set_booked False (slot_id appt) (slots s),
                 appointments =
                   map (\<lambda>a. if confirmation_code a = code then a\<lparr>status := ''CANCELLED''\<rparr> else a)
                     (appointments s)\<rparr>)
          else (Inr (), s))"

section \<open>The staff's operations\<close>

text \<open>\<^verbatim>\<open>add_slot\<close> (lines 319 to 330), behind the token check.\<close>

definition add_slot :: "slot_form \<Rightarrow> db \<Rightarrow> (error + unit) \<times> db" where
  "add_slot f s =
     (case f_slot_date f of
        None \<Rightarrow> (Inl (KeyError ''slot_date''), s)
      | Some d \<Rightarrow>
     (case f_start_time f of
        None \<Rightarrow> (Inl (KeyError ''start_time''), s)
      | Some st \<Rightarrow>
     (case f_end_time f of
        None \<Rightarrow> (Inl (KeyError ''end_time''), s)
      | Some en \<Rightarrow>
          (Inr (),
           s\<lparr>slots := slots s @
               [\<lparr>s_id = next_rowid (map s_id (slots s)), slot_date = d, start_time = st,
                 end_time = en, is_booked = False\<rparr>]\<rparr>))))"

text \<open>\<^verbatim>\<open>admin_update\<close> (lines 333 to 351), behind the token check.\<close>

definition admin_update :: "int \<Rightarrow> update_form \<Rightarrow> datetime \<Rightarrow> db \<Rightarrow> (error + unit) \<times> db" where
  "admin_update i f t s =
     (case f_status f of
        None \<Rightarrow> (Inl (KeyError ''status''), s)
      | Some st \<Rightarrow>
     (case f_meeting_link f of
        None \<Rightarrow> (Inl (KeyError ''meeting_link''), s)
      | Some ml \<Rightarrow>
     (case f_remarks f of
        None \<Rightarrow> (Inl (KeyError ''remarks''), s)
      | Some rm \<Rightarrow>
          (Inr (),
           s\<lparr>appointments :=
               map (\<lambda>a. if a_id a = i
                         then a\<lparr>status := st, meeting_link := Some ml, admin_remarks := Some rm,
                                updated_at := isoformat t\<rparr>
                         else a)
                 (appointments s)\<rparr>))))"

section \<open>The expiry sweep\<close>

text \<open>
  Modelled from the spec: \<^verbatim>\<open>auto_expire_reserved\<close> is imported from the module
  \<^verbatim>\<open>scheduler\<close>, which is not among the sources. Section 4.2 of the spec: each run selects
  every appointment with status RESERVED whose age since \<^verbatim>\<open>created_at\<close> exceeds the
  threshold and, for each, sets the status to EXPIRED and releases its slot. The spec
  gives neither the threshold nor how the age is read off the timestamp, so both are
  parameters: \<open>age\<close> maps a \<^verbatim>\<open>created_at\<close> value to its age at the time of the run.
\<close>

definition due :: "(string \<Rightarrow> int) \<Rightarrow> int \<Rightarrow> appointment \<Rightarrow> bool" where
  "due age threshold a = (status a = ''RESERVED'' \<and> threshold < age (created_at a))"

fun expire_rows ::
  "(string \<Rightarrow> int) \<Rightarrow> int \<Rightarrow> appointment list \<Rightarrow> slot list \<Rightarrow> appointment list \<times> slot list" where
  "expire_rows age threshold [] sl = ([], sl)"
| "expire_rows age threshold (a # as) sl =
     (if due age threshold a
      then (case expire_rows age threshold as (set_booked False (slot_id a) sl) of
              (as', sl') \<Rightarrow> (a\<lparr>status := ''EXPIRED''\<rparr> # as', sl'))
      else (case expire_rows age threshold as sl of
              (as', sl') \<Rightarrow> (a # as', sl')))"

definition auto_expire_reserved :: "(string \<Rightarrow> int) \<Rightarrow> int \<Rightarrow> db \<Rightarrow> db" where
  "auto_expire_reserved age threshold s =
     (case expire_rows age threshold (appointments s) (slots s) of
        (as', sl') \<Rightarrow> \<lparr>slots = sl', appointments = as'\<rparr>)"

section \<open>Reachable states\<close>

text \<open>
  The public operations, with the clock readings each one takes. A state is reachable
  when a sequence of them leads to it from the empty tables; an operation that fails
  leaves the state as it is.
\<close>

datatype op =
    AddSlot slot_form
  | Book book_form datetime datetime
  | Cancel string
  | UpdateStatus int update_form datetime
  | ExpirySweep "string \<Rightarrow> int" int

fun apply_op :: "op \<Rightarrow> db \<Rightarrow> db" where
  "apply_op (AddSlot f) s = snd (add_slot f s)"
| "apply_op (Book f t_code t_now) s = snd (book f t_code t_now s)"
| "apply_op (Cancel code) s = snd (cancel code s)"
| "apply_op (UpdateStatus i f t) s = snd (admin_update i f t s)"
| "apply_op (ExpirySweep age threshold) s = auto_expire_reserved age threshold s"

definition run :: "op list \<Rightarrow> db \<Rightarrow> db" where
  "run ops s = fold apply_op ops s"

definition empty_db :: db where
  "empty_db = \<lparr>slots = [], appointments = []\<rparr>"

text \<open>A slot's active appointments: those that reference it with status RESERVED or CONFIRMED.\<close>

definition active :: "appointment \<Rightarrow> bool" where
  "active a = (status a = ''RESERVED'' \<or> status a = ''CONFIRMED'')"

definition active_on :: "int \<Rightarrow> appointment list \<Rightarrow> appointment list" where
  "active_on sid as = filter (\<lambda>a. slot_id a = sid \<and> active a) as"

section \<open>Example data\<close>

text \<open>The scenario of section 8 of the spec: one free slot, then patient A books it.\<close>

definition ex_time :: datetime where
  "ex_time = \<lparr>year = 2024, month = 1, day = 5, hour = 9, minute = 3, second = 7, microsecond = 0\<rparr>"

definition ex_slot :: slot where
  "ex_slot = \<lparr>s_id = 1, slot_date = ''2024-01-10'', start_time = ''10:00'', end_time = ''10:30'',
     is_booked = False\<rparr>"

definition ex_slot_form :: slot_form where
  "ex_slot_form = \<lparr>f_slot_date = Some ''2024-01-10'', f_start_time = Some ''10:00'',
     f_end_time = Some ''10:30''\<rparr>"

definition ex_book :: book_form where
  "ex_book = \<lparr>f_slot_id = Some 1, f_patient_name = Some ''A'', f_mobile = Some ''9876543210'',
     f_address = Some ''12 Hill Road''\<rparr>"

definition ex_appt :: appointment where
  "ex_appt = \<lparr>a_id = 1, confirmation_code = ''MB-20240105-0001'', patient_name = ''A'',
     mobile = ''9876543210'', address = ''12 Hill Road'', slot_id = 1,
     appointment_date = ''2024-01-10'', slot_time = ''10:00-10:30'', status = ''RESERVED'',
     meeting_link = None, admin_remarks = None,
     created_at = ''2024-01-05T09:03:07'', updated_at = ''2024-01-05T09:03:07''\<rparr>"

definition ex_free :: db where
  "ex_free = \<lparr>slots = [ex_slot], appointments = []\<rparr>"

definition ex_booked :: db where
  "ex_booked = \<lparr>slots = [ex_slot\<lparr>is_booked := True\<rparr>], appointments = [ex_appt]\<rparr>"

definition ex_update :: update_form where
  "ex_update = \<lparr>f_status = Some ''CANCELLED'', f_meeting_link = Some ''https://meet/1'',
     f_remarks = Some ''patient called''\<rparr>"




definition ex_rival :: book_form where
  "ex_rival = \<lparr>f_slot_id = Some 1, f_patient_name = Some ''B'', f_mobile = Some ''9123456780'',
     f_address = Some ''4 Lake View''\<rparr>"




section \<open>Notions of the proofs\<close>

text \<open>Reading a decimal string back, to tell two confirmation codes apart.\<close>

definition nat_of_digits :: "string \<Rightarrow> nat" where
  "nat_of_digits s = foldl (\<lambda>n c. 10 * n + (of_char c - 48)) 0 s"

definition is_digit :: "char \<Rightarrow> bool" where
  "is_digit c = (c \<in> set ''0123456789'')"

text \<open>
  The codes of the appointment table as \<^verbatim>\<open>book\<close> builds it: the row at position \<open>i\<close> (from 0)
  carries the code made from some clock reading and the count \<open>i + 1\<close>.
\<close>

definition codes_numbered :: "string list \<Rightarrow> bool" where
  "codes_numbered cs = (\<forall>i<length cs. \<exists>t. cs ! i = make_code t (Suc i))"

text \<open>
  The invariant of section 3 of the spec, in the form that the operations preserve: a
  booked slot has exactly one active appointment, a free slot has none, and an active
  appointment references a slot of the table.
\<close>

definition slots_match :: "db \<Rightarrow> bool" where
  "slots_match s =
     ((\<forall>r\<in>set (slots s).
         length (active_on (s_id r) (appointments s)) = (if is_booked r then 1 else 0))
      \<and> (\<forall>a\<in>set (appointments s). active a \<longrightarrow> slot_id a \<in> set (map s_id (slots s))))"

fun is_update :: "op \<Rightarrow> bool" where
  "is_update (UpdateStatus i f t) = True"
| "is_update x = False"

section \<open>Decimal strings\<close>

declare str_nat.simps [simp del]

lemma digit_chars: "\<forall>d\<in>set [0..<10]. is_digit (digit_char d) \<and> of_char (digit_char d) - 48 = d"
  by code_simp

lemma digit_char_is_digit: "d < 10 \<Longrightarrow> is_digit (digit_char d)"
  using digit_chars by simp

lemma of_char_digit_char: "d < 10 \<Longrightarrow> of_char (digit_char d) - 48 = d"
  using digit_chars by simp

lemma str_nat_digits: "\<forall>c\<in>set (str_nat n). is_digit c"
proof (induction n rule: str_nat.induct)
  case (1 n)
  show ?case
  proof (cases "n < 10")
    case True
    then show ?thesis
      by (subst str_nat.simps) (simp add: digit_char_is_digit)
  next
    case False
    with 1 show ?thesis
      by (subst str_nat.simps) (simp add: digit_char_is_digit)
  qed
qed

lemma str_nat_not_Nil: "str_nat n \<noteq> []"
  by (subst str_nat.simps) simp

lemma nat_of_digits_snoc:
  "nat_of_digits (s @ [c]) = 10 * nat_of_digits s + (of_char c - 48)"
  by (simp add: nat_of_digits_def)

lemma nat_of_digits_str_nat: "nat_of_digits (str_nat n) = n"
proof (induction n rule: str_nat.induct)
  case (1 n)
  show ?case
  proof (cases "n < 10")
    case True
    then show ?thesis
      by (subst str_nat.simps) (simp add: nat_of_digits_def of_char_digit_char)
  next
    case False
    with 1 have "nat_of_digits (str_nat (n div 10)) = n div 10" by simp
    with False show ?thesis
      by (subst str_nat.simps) (simp add: nat_of_digits_snoc of_char_digit_char)
  qed
qed

lemma nat_of_digits_zeros: "nat_of_digits (replicate k CHR ''0'' @ s) = nat_of_digits s"
proof -
  have "foldl (\<lambda>n c. 10 * n + (of_char c - 48)) (0::nat) (replicate k CHR ''0'') = 0"
    by (induction k) simp_all
  then show ?thesis by (simp add: nat_of_digits_def)
qed

lemma is_digit_not_sign: "is_digit c \<Longrightarrow> c \<noteq> CHR ''+'' \<and> c \<noteq> CHR ''-''"
  by (auto simp: is_digit_def)

lemma zfill_digits:
  assumes "s \<noteq> []" and "\<forall>c\<in>set s. is_digit c"
  shows "zfill w s = replicate (w - length s) CHR ''0'' @ s"
proof (cases s)
  case Nil
  with assms(1) show ?thesis by simp
next
  case (Cons c cs)
  with assms(2) have "c \<noteq> CHR ''+'' \<and> c \<noteq> CHR ''-''"
    using is_digit_not_sign by simp
  with Cons show ?thesis by (simp add: zfill_def)
qed

lemma zfill_str_nat: "zfill w (str_nat n) = replicate (w - length (str_nat n)) CHR ''0'' @ str_nat n"
  using str_nat_not_Nil str_nat_digits by (rule zfill_digits)

lemma nat_of_digits_zfill: "nat_of_digits (zfill w (str_nat n)) = n"
  by (simp only: zfill_str_nat nat_of_digits_zeros nat_of_digits_str_nat)

lemma zfill_str_nat_digits: "\<forall>c\<in>set (zfill w (str_nat n)). is_digit c"
proof -
  have "is_digit CHR ''0''" by (simp add: is_digit_def)
  with str_nat_digits [of n] show ?thesis by (auto simp: zfill_str_nat)
qed

lemma strftime_Ymd_digits: "\<forall>c\<in>set (strftime_Ymd t). is_digit c"
  using zfill_str_nat_digits by (auto simp: strftime_Ymd_def)

lemma strftime_Ymd_no_hyphen: "CHR ''-'' \<notin> set (strftime_Ymd t)"
  using strftime_Ymd_digits [of t] is_digit_not_sign by blast

lemma split_at_separator:
  assumes "c \<notin> set xs" and "c \<notin> set xs'" and "xs @ c # ys = xs' @ c # ys'"
  shows "xs = xs' \<and> ys = ys'"
  using assms
proof (induction xs arbitrary: xs')
  case Nil
  then show ?case by (cases xs') auto
next
  case (Cons x xs)
  then show ?case by (cases xs') auto
qed

lemma make_code_inject:
  assumes "make_code t n = make_code t' n'"
  shows "n = n'"
proof -
  from assms have eq: "strftime_Ymd t @ CHR ''-'' # zfill 4 (str_nat n) =
      strftime_Ymd t' @ CHR ''-'' # zfill 4 (str_nat n')"
    by (simp add: make_code_def)
  have "zfill 4 (str_nat n) = zfill 4 (str_nat n')"
    using split_at_separator [OF strftime_Ymd_no_hyphen strftime_Ymd_no_hyphen eq]
    by (rule conjunct2)
  then have "nat_of_digits (zfill 4 (str_nat n)) = nat_of_digits (zfill 4 (str_nat n'))"
    by (simp only:)
  then show ?thesis by (simp only: nat_of_digits_zfill)
qed

text \<open>
  The shape of a code: eight digits for the date and, up to the 9999th appointment, four
  for the count.
\<close>

lemma length_str_nat: "0 < k \<Longrightarrow> n < 10 ^ k \<Longrightarrow> length (str_nat n) \<le> k"
proof (induction k arbitrary: n)
  case 0
  then show ?case by simp
next
  case (Suc k)
  show ?case
  proof (cases "n < 10")
    case True
    then show ?thesis by (subst str_nat.simps) simp
  next
    case False
    then have "0 < k" using Suc.prems(2) by (cases k) auto
    moreover have "n div 10 < 10 ^ k" using Suc.prems(2) by (simp add: less_mult_imp_div_less mult.commute)
    ultimately have "length (str_nat (n div 10)) \<le> k" by (rule Suc.IH)
    with False show ?thesis by (subst str_nat.simps) simp
  qed
qed

lemma length_zfill_str_nat:
  assumes "0 < k" and "n < 10 ^ k"
  shows "length (zfill k (str_nat n)) = k"
  using length_str_nat [OF assms] by (simp add: zfill_str_nat)

lemma make_code_shape:
  assumes "year t < 10000" and "month t < 100" and "day t < 100" and "n < 10000"
  shows "length (strftime_Ymd t) = 8 \<and> length (zfill 4 (str_nat n)) = 4
       \<and> (\<forall>c\<in>set (strftime_Ymd t @ zfill 4 (str_nat n)). is_digit c)"
proof -
  have "length (zfill 4 (str_nat (year t))) = 4" "length (zfill 2 (str_nat (month t))) = 2"
    "length (zfill 2 (str_nat (day t))) = 2" "length (zfill 4 (str_nat n)) = 4"
    using assms by (simp_all add: length_zfill_str_nat)
  then show ?thesis
    using strftime_Ymd_digits [of t] zfill_str_nat_digits [of 4 n]
    by (auto simp: strftime_Ymd_def)
qed

section \<open>Booking\<close>

lemma book_found:
  assumes "f_slot_id f = Some sid"
    and "find (\<lambda>r. s_id r = sid \<and> \<not> is_booked r) (slots s) = Some slot"
    and "f_patient_name f = Some pn" and "f_mobile f = Some mb" and "f_address f = Some ad"
    and "fits_int64 sid"
  shows "book f t_code t_now s =
     (Inr (make_code t_code (length (appointments s) + 1)),
      \<lparr>slots = set_booked True (s_id slot) (slots s),
       appointments = appointments s @
         [\<lparr>a_id = next_rowid (map a_id (appointments s)),
           confirmation_code = make_code t_code (length (appointments s) + 1),
           patient_name = pn, mobile = mb, address = ad,
           slot_id = s_id slot,
           appointment_date = slot_date slot,
           slot_time = start_time slot @ ''-'' @ end_time slot,
           status = ''RESERVED'', meeting_link = None, admin_remarks = None,
           created_at = isoformat t_now, updated_at = isoformat t_now\<rparr>]\<rparr>)"
  using assms by (simp add: book_def Let_def)

lemma book_unavailable:
  assumes "f_slot_id f = Some sid"
    and "find (\<lambda>r. s_id r = sid \<and> \<not> is_booked r) (slots s) = None"
    and "fits_int64 sid"
  shows "book f t_code t_now s = (Inl SlotUnavailable, s)"
  using assms by (simp add: book_def)


lemma find_SomeD: "find P xs = Some x \<Longrightarrow> P x \<and> x \<in> set xs"
  by (induction xs) (auto split: if_splits)

lemma find_free_slot_None:
  "(find (\<lambda>r. s_id r = sid \<and> \<not> is_booked r) sl = None) =
   (\<forall>r\<in>set sl. s_id r = sid \<longrightarrow> is_booked r)"
  by (auto simp: find_None_iff)

lemma find_free_slot_Some:
  assumes "slot \<in> set sl" and "s_id slot = sid" and "\<not> is_booked slot"
  shows "\<exists>r. find (\<lambda>r. s_id r = sid \<and> \<not> is_booked r) sl = Some r \<and> s_id r = sid"
proof (cases "find (\<lambda>r. s_id r = sid \<and> \<not> is_booked r) sl")
  case None
  with assms show ?thesis by (auto simp: find_None_iff)
next
  case (Some r)
  then show ?thesis using find_SomeD by fastforce
qed

lemma book_InrD:
  assumes "book f t_code t_now s = (Inr code, s')"
  obtains sid slot pn mb ad where
    "f_slot_id f = Some sid"
    "find (\<lambda>r. s_id r = sid \<and> \<not> is_booked r) (slots s) = Some slot"
    "f_patient_name f = Some pn" "f_mobile f = Some mb" "f_address f = Some ad"
    "fits_int64 sid"
  using assms by (auto simp: book_def Let_def split: option.splits if_splits)

subsection \<open>The slot table under \<^verbatim>\<open>UPDATE slots SET is_booked\<close>\<close>

lemma set_booked_cases:
  assumes "x \<in> set (set_booked b sid sl)"
  obtains r where "r \<in> set sl" and "s_id r = sid" and "x = r\<lparr>is_booked := b\<rparr>"
  | "x \<in> set sl" and "s_id x \<noteq> sid"
proof -
  from assms obtain r where
    r: "r \<in> set sl" "x = (if s_id r = sid then r\<lparr>is_booked := b\<rparr> else r)"
    unfolding set_booked_def set_map by (rule imageE)
  show ?thesis
  proof (cases "s_id r = sid")
    case True
    with r(2) have "x = r\<lparr>is_booked := b\<rparr>" by (simp only: if_True refl)
    with r(1) True show ?thesis by (rule that(1))
  next
    case False
    with r(2) have "x = r" by (simp only: if_False)
    with r(1) False show ?thesis using that(2) by blast
  qed
qed

lemma set_booked_hit:
  assumes "x \<in> set (set_booked b sid sl)" and "s_id x = sid"
  shows "is_booked x = b"
  using assms(1)
proof (cases rule: set_booked_cases)
  case (1 r)
  then show ?thesis by simp
next
  case 2
  with assms(2) show ?thesis by blast
qed

lemma set_booked_s_id: "map s_id (set_booked b sid sl) = map s_id sl"
  by (induction sl) (simp_all add: set_booked_def)

subsection \<open>The example, evaluated\<close>

lemma ex_date: "strftime_Ymd ex_time = ''20240105''"
  by code_simp

lemma ex_iso: "isoformat ex_time = ''2024-01-05T09:03:07''"
  by code_simp

lemma ex_book_free: "book ex_book ex_time ex_time ex_free = (Inr ''MB-20240105-0001'', ex_booked)"
  by code_simp

lemma zfill_0001: "zfill 4 (str_nat (Suc 0)) = ''0001''"
  by code_simp

subsection \<open>A free slot is booked\<close>

text \<open>
  Claim C2. When the requested slot exists and is free (the body has its four keys, and
  the slot's id is an integer that SQLite stores, as that of every row of the table is),
  \<^verbatim>\<open>book\<close> answers success with the code of the one appointment it appends. That
  appointment references the slot, has status RESERVED and the patient's fields, and
  \<^verbatim>\<open>created_at\<close> and \<^verbatim>\<open>updated_at\<close> are both the clock reading. The code is \<^verbatim>\<open>MB-\<close>, the
  booking date as \<^verbatim>\<open>%Y%m%d\<close> of the clock (the slot's date plays no part), a hyphen, and
  the number of appointments before the insert plus one, zero-filled to four digits:
  \<^verbatim>\<open>0001\<close> for the first appointment ever. For a date of the calendar and a count
  below 10000, that is eight digits, a hyphen and four digits. Every slot row with the
  requested id is booked afterwards, and no other change is made to the slot table than
  that \<^verbatim>\<open>UPDATE\<close>.
\<close>

theorem book_available:
  assumes "f_slot_id f = Some sid"
    and "f_patient_name f = Some pn" and "f_mobile f = Some mb" and "f_address f = Some ad"
    and "slot \<in> set (slots s)" and "s_id slot = sid" and "\<not> is_booked slot"
    and "fits_int64 (s_id slot)"
  shows "\<exists>a. book f t_code t_now s =
               (Inr (confirmation_code a),
                \<lparr>slots = set_booked True sid (slots s), appointments = appointments s @ [a]\<rparr>)
           \<and> slot_id a = sid \<and> status a = ''RESERVED''
           \<and> patient_name a = pn \<and> mobile a = mb \<and> address a = ad
           \<and> created_at a = isoformat t_now \<and> updated_at a = isoformat t_now
           \<and> confirmation_code a =
               ''MB-'' @ strftime_Ymd t_code @ ''-'' @ zfill 4 (str_nat (length (appointments s) + 1))
           \<and> (appointments s = [] \<longrightarrow> confirmation_code a = ''MB-'' @ strftime_Ymd t_code @ ''-0001'')
           \<and> (year t_code < 10000 \<and> month t_code < 100 \<and> day t_code < 100
                \<and> length (appointments s) + 1 < 10000 \<longrightarrow>
              length (strftime_Ymd t_code) = 8
              \<and> length (zfill 4 (str_nat (length (appointments s) + 1))) = 4
              \<and> (\<forall>c\<in>set (strftime_Ymd t_code @ zfill 4 (str_nat (length (appointments s) + 1))).
                    is_digit c))
           \<and> (\<forall>r\<in>set (slots (snd (book f t_code t_now s))). s_id r = sid \<longrightarrow> is_booked r)"
proof -
  from assms(5-7) obtain r where
    r: "find (\<lambda>r. s_id r = sid \<and> \<not> is_booked r) (slots s) = Some r" "s_id r = sid"
    using find_free_slot_Some by blast
  from assms(6,8) have fits: "fits_int64 sid" by simp
  define a where "a = \<lparr>a_id = next_rowid (map a_id (appointments s)),
           confirmation_code = make_code t_code (length (appointments s) + 1),
           patient_name = pn, mobile = mb, address = ad,
           slot_id = s_id r,
           appointment_date = slot_date r,
           slot_time = start_time r @ ''-'' @ end_time r,
           status = ''RESERVED'', meeting_link = None, admin_remarks = None,
           created_at = isoformat t_now, updated_at = isoformat t_now\<rparr>"
  have eq: "book f t_code t_now s =
      (Inr (confirmation_code a),
       \<lparr>slots = set_booked True sid (slots s), appointments = appointments s @ [a]\<rparr>)"
    using book_found [OF assms(1) r(1) assms(2-4) fits, of t_code t_now] r(2) by (simp add: a_def)
  have code: "confirmation_code a =
      ''MB-'' @ strftime_Ymd t_code @ ''-'' @ zfill 4 (str_nat (length (appointments s) + 1))"
    by (simp add: a_def make_code_def)
  have first: "appointments s = [] \<longrightarrow> confirmation_code a = ''MB-'' @ strftime_Ymd t_code @ ''-0001''"
    by (simp add: a_def make_code_def zfill_0001)
  have shape: "year t_code < 10000 \<and> month t_code < 100 \<and> day t_code < 100
                \<and> length (appointments s) + 1 < 10000 \<longrightarrow>
              length (strftime_Ymd t_code) = 8
              \<and> length (zfill 4 (str_nat (length (appointments s) + 1))) = 4
              \<and> (\<forall>c\<in>set (strftime_Ymd t_code @ zfill 4 (str_nat (length (appointments s) + 1))).
                    is_digit c)"
    using make_code_shape [of t_code "length (appointments s) + 1"] by blast
  have booked: "\<forall>r\<in>set (slots (snd (book f t_code t_now s))). s_id r = sid \<longrightarrow> is_booked r"
    unfolding eq by (simp add: set_booked_hit)
  have fields: "slot_id a = sid \<and> status a = ''RESERVED''
           \<and> patient_name a = pn \<and> mobile a = mb \<and> address a = ad
           \<and> created_at a = isoformat t_now \<and> updated_at a = isoformat t_now"
    using r(2) by (simp add: a_def)
  show ?thesis
    by (rule exI [of _ a]) (intro conjI eq code first shape booked fields [THEN conjunct1]
        fields [THEN conjunct2, THEN conjunct1]
        fields [THEN conjunct2, THEN conjunct2, THEN conjunct1]
        fields [THEN conjunct2, THEN conjunct2, THEN conjunct2, THEN conjunct1]
        fields [THEN conjunct2, THEN conjunct2, THEN conjunct2, THEN conjunct2, THEN conjunct1]
        fields [THEN conjunct2, THEN conjunct2, THEN conjunct2, THEN conjunct2, THEN conjunct2, THEN conjunct1]
        fields [THEN conjunct2, THEN conjunct2, THEN conjunct2, THEN conjunct2, THEN conjunct2, THEN conjunct2])
qed

text \<open>The scenario of the spec: the first booking, of a free slot, returns \<^verbatim>\<open>MB-<today>-0001\<close>.\<close>

theorem book_available_witness:
  "fst (book ex_book ex_time ex_time ex_free) = Inr ''MB-20240105-0001''
   \<and> slots (snd (book ex_book ex_time ex_time ex_free)) = [ex_slot\<lparr>is_booked := True\<rparr>]
   \<and> length (appointments (snd (book ex_book ex_time ex_time ex_free))) = 1"
proof -
  have h: "f_slot_id ex_book = Some 1" "f_patient_name ex_book = Some ''A''"
    "f_mobile ex_book = Some ''9876543210''" "f_address ex_book = Some ''12 Hill Road''"
    "ex_slot \<in> set (slots ex_free)" "s_id ex_slot = 1" "\<not> is_booked ex_slot"
    "fits_int64 (s_id ex_slot)"
    by (simp_all add: ex_book_def ex_free_def ex_slot_def fits_int64_def)
  from book_available [OF h, of ex_time ex_time] obtain a where
    a: "book ex_book ex_time ex_time ex_free =
         (Inr (confirmation_code a),
          \<lparr>slots = set_booked True 1 (slots ex_free), appointments = appointments ex_free @ [a]\<rparr>)"
    and c: "appointments ex_free = [] \<longrightarrow> confirmation_code a = ''MB-'' @ strftime_Ymd ex_time @ ''-0001''"
    by blast
  have "appointments ex_free = []" by (simp add: ex_free_def)
  with c have "confirmation_code a = ''MB-20240105-0001''" by (simp add: ex_date)
  moreover have "set_booked True 1 (slots ex_free) = [ex_slot\<lparr>is_booked := True\<rparr>]"
    by (simp add: set_booked_def ex_free_def ex_slot_def)
  ultimately show ?thesis unfolding a by (simp add: ex_free_def)
qed

subsection \<open>A slot that is missing or taken\<close>




subsection \<open>What the new appointment takes from the slot\<close>

text \<open>
  Claim C10. Whenever \<^verbatim>\<open>book\<close> succeeds, it found a free slot with the requested id and
  appended one appointment whose \<^verbatim>\<open>appointment_date\<close> is that slot's \<^verbatim>\<open>slot_date\<close> and whose
  \<^verbatim>\<open>slot_time\<close> is the slot's \<^verbatim>\<open>start_time\<close>, a hyphen and its \<^verbatim>\<open>end_time\<close>.
\<close>

theorem book_copies_slot_fields:
  assumes "book f t_code t_now s = (Inr code, s')"
  shows "\<exists>slot a. slot \<in> set (slots s) \<and> f_slot_id f = Some (s_id slot) \<and> \<not> is_booked slot
           \<and> appointments s' = appointments s @ [a]
           \<and> slot_id a = s_id slot
           \<and> appointment_date a = slot_date slot
           \<and> slot_time a = start_time slot @ ''-'' @ end_time slot"
proof -
  from assms obtain sid slot pn mb ad where
    h: "f_slot_id f = Some sid"
    "find (\<lambda>r. s_id r = sid \<and> \<not> is_booked r) (slots s) = Some slot"
    "f_patient_name f = Some pn" "f_mobile f = Some mb" "f_address f = Some ad"
    "fits_int64 sid"
    by (rule book_InrD)
  from h(2) have sl: "s_id slot = sid" "\<not> is_booked slot" "slot \<in> set (slots s)"
    using find_SomeD by fastforce+
  from assms book_found [OF h, of t_code t_now] sl h(1) show ?thesis
    by auto
qed

text \<open>In the scenario the slot of 2024-01-10 is booked on 2024-01-05: the date is the slot's.\<close>

theorem book_copies_slot_fields_witness:
  "appointment_date (last (appointments ex_booked)) = ''2024-01-10''
   \<and> slot_time (last (appointments ex_booked)) = ''10:00-10:30''"
proof -
  from book_copies_slot_fields [OF ex_book_free] obtain slot a where
    h: "slot \<in> set (slots ex_free)" "appointments ex_booked = appointments ex_free @ [a]"
      "appointment_date a = slot_date slot" "slot_time a = start_time slot @ ''-'' @ end_time slot"
    by blast
  from h(1) have "slot = ex_slot" by (simp add: ex_free_def)
  with h(2-4) show ?thesis by (simp add: ex_slot_def)
qed

subsection \<open>Booking the same slot again\<close>

text \<open>
  The second call of the scenario: once a booking has succeeded, the same request, made
  again on the state it left, is answered \<open>SlotUnavailable\<close> and changes nothing.
\<close>

lemma book_again_unavailable:
  assumes "book f t_code t_now s = (Inr code, s')"
  shows "book f t_code' t_now' s' = (Inl SlotUnavailable, s')"
proof -
  from assms obtain sid slot pn mb ad where
    h: "f_slot_id f = Some sid"
    "find (\<lambda>r. s_id r = sid \<and> \<not> is_booked r) (slots s) = Some slot"
    "f_patient_name f = Some pn" "f_mobile f = Some mb" "f_address f = Some ad"
    "fits_int64 sid"
    by (rule book_InrD)
  from h(2) have "s_id slot = sid" using find_SomeD by fastforce
  with assms book_found [OF h, of t_code t_now]
  have "slots s' = set_booked True sid (slots s)" by auto
  then have "\<forall>r\<in>set (slots s'). s_id r = sid \<longrightarrow> is_booked r"
    by (simp add: set_booked_hit)
  then have "find (\<lambda>r. s_id r = sid \<and> \<not> is_booked r) (slots s') = None"
    by (simp only: find_free_slot_None)
  with h(1) show ?thesis using h(6) by (rule book_unavailable)
qed

section \<open>Cancelling\<close>

lemma find_code_map:
  assumes "\<And>a. confirmation_code (g a) = confirmation_code a"
  shows "find (\<lambda>a. confirmation_code a = code) (map g as) =
         map_option g (find (\<lambda>a. confirmation_code a = code) as)"
  by (induction as) (simp_all add: assms)

lemma cancel_not_found:
  "find (\<lambda>a. confirmation_code a = code) (appointments s) = None \<Longrightarrow> cancel code s = (Inr (), s)"
  by (simp add: cancel_def)

lemma cancel_not_reserved:
  "find (\<lambda>a. confirmation_code a = code) (appointments s) = Some appt \<Longrightarrow>
   status appt \<noteq> ''RESERVED'' \<Longrightarrow> cancel code s = (Inr (), s)"
  by (simp add: cancel_def)

lemma cancel_reserved:
  "find (\<lambda>a. confirmation_code a = code) (appointments s) = Some appt \<Longrightarrow>
   status appt = ''RESERVED'' \<Longrightarrow>
   cancel code s =
     (Inr (),
      \<lparr>slots = set_booked False (slot_id appt) (slots s),
       appointments =
         map (\<lambda>a. if confirmation_code a = code then a\<lparr>status := ''CANCELLED''\<rparr> else a)
           (appointments s)\<rparr>)"
  by (simp add: cancel_def)

lemma cancel_succeeds: "fst (cancel code s) = Inr ()"
  by (simp add: cancel_def split: option.splits)

lemma find_after_cancel:
  assumes "find (\<lambda>a. confirmation_code a = code) as = Some appt"
  shows "find (\<lambda>a. confirmation_code a = code)
           (map (\<lambda>a. if confirmation_code a = code then a\<lparr>status := ''CANCELLED''\<rparr> else a) as)
         = Some (appt\<lparr>status := ''CANCELLED''\<rparr>)"
proof -
  have "confirmation_code appt = code"
    using find_SomeD [OF assms] by simp
  then show ?thesis
    using assms by (simp add: find_code_map)
qed

lemma cancel_twice: "snd (cancel code (snd (cancel code s))) = snd (cancel code s)"
proof (cases "find (\<lambda>a. confirmation_code a = code) (appointments s)")
  case None
  then show ?thesis by (simp add: cancel_not_found)
next
  case (Some appt)
  show ?thesis
  proof (cases "status appt = ''RESERVED''")
    case False
    with Some show ?thesis by (simp add: cancel_not_reserved)
  next
    case True
    define s' where "s' = \<lparr>slots = set_booked False (slot_id appt) (slots s),
      appointments = map (\<lambda>a. if confirmation_code a = code then a\<lparr>status := ''CANCELLED''\<rparr> else a)
        (appointments s)\<rparr>"
    have first: "cancel code s = (Inr (), s')"
      unfolding s'_def using Some True by (rule cancel_reserved)
    have "find (\<lambda>a. confirmation_code a = code) (appointments s') = Some (appt\<lparr>status := ''CANCELLED''\<rparr>)"
      unfolding s'_def using find_after_cancel [OF Some] by simp
    moreover have "status (appt\<lparr>status := ''CANCELLED''\<rparr>) \<noteq> ''RESERVED''"
      by simp
    ultimately have "cancel code s' = (Inr (), s')"
      by (rule cancel_not_reserved)
    with first show ?thesis by simp
  qed
qed

text \<open>
  Claim C4. \<^verbatim>\<open>cancel\<close> always answers success. When no appointment has the code, or the
  one the lookup returns is not RESERVED, the state is unchanged. When it is RESERVED,
  the appointments with the code get status CANCELLED (the lookup then returns the same
  appointment with that status and nothing else changed) and every slot row with its
  \<^verbatim>\<open>slot_id\<close> has \<^verbatim>\<open>is_booked\<close> 0. Cancelling twice leaves the state of cancelling once.
\<close>

theorem cancel_only_reserved:
  "fst (cancel code s) = Inr ()
   \<and> (find (\<lambda>a. confirmation_code a = code) (appointments s) = None \<longrightarrow> snd (cancel code s) = s)
   \<and> (\<forall>appt. find (\<lambda>a. confirmation_code a = code) (appointments s) = Some appt
          \<and> status appt \<noteq> ''RESERVED'' \<longrightarrow> snd (cancel code s) = s)
   \<and> (\<forall>appt. find (\<lambda>a. confirmation_code a = code) (appointments s) = Some appt
          \<and> status appt = ''RESERVED'' \<longrightarrow>
          appointments (snd (cancel code s)) =
            map (\<lambda>a. if confirmation_code a = code then a\<lparr>status := ''CANCELLED''\<rparr> else a)
              (appointments s)
          \<and> find (\<lambda>a. confirmation_code a = code) (appointments (snd (cancel code s))) =
              Some (appt\<lparr>status := ''CANCELLED''\<rparr>)
          \<and> slots (snd (cancel code s)) = set_booked False (slot_id appt) (slots s)
          \<and> (\<forall>r\<in>set (slots (snd (cancel code s))). s_id r = slot_id appt \<longrightarrow> \<not> is_booked r))
   \<and> snd (cancel code (snd (cancel code s))) = snd (cancel code s)"
proof (intro conjI allI impI)
  show "fst (cancel code s) = Inr ()" by (rule cancel_succeeds)
next
  assume "find (\<lambda>a. confirmation_code a = code) (appointments s) = None"
  then show "snd (cancel code s) = s" by (simp add: cancel_not_found)
next
  fix appt
  assume "find (\<lambda>a. confirmation_code a = code) (appointments s) = Some appt
          \<and> status appt \<noteq> ''RESERVED''"
  then show "snd (cancel code s) = s" by (simp add: cancel_not_reserved)
next
  fix appt
  assume h: "find (\<lambda>a. confirmation_code a = code) (appointments s) = Some appt
          \<and> status appt = ''RESERVED''"
  then have eq: "cancel code s =
     (Inr (),
      \<lparr>slots = set_booked False (slot_id appt) (slots s),
       appointments =
         map (\<lambda>a. if confirmation_code a = code then a\<lparr>status := ''CANCELLED''\<rparr> else a)
           (appointments s)\<rparr>)"
    by (simp add: cancel_reserved)
  show "appointments (snd (cancel code s)) =
            map (\<lambda>a. if confirmation_code a = code then a\<lparr>status := ''CANCELLED''\<rparr> else a)
              (appointments s)"
    unfolding eq by simp
  show "find (\<lambda>a. confirmation_code a = code) (appointments (snd (cancel code s))) =
              Some (appt\<lparr>status := ''CANCELLED''\<rparr>)"
    unfolding eq using find_after_cancel [OF h [THEN conjunct1]] by simp
  show "slots (snd (cancel code s)) = set_booked False (slot_id appt) (slots s)"
    unfolding eq by simp
  show "\<forall>r\<in>set (slots (snd (cancel code s))). s_id r = slot_id appt \<longrightarrow> \<not> is_booked r"
    unfolding eq by (simp add: set_booked_hit)
next
  show "snd (cancel code (snd (cancel code s))) = snd (cancel code s)" by (rule cancel_twice)
qed

text \<open>Cancelling the booking of the scenario, then cancelling it again.\<close>

theorem cancel_only_reserved_witness:
  "snd (cancel ''MB-20240105-0001'' ex_booked) =
     \<lparr>slots = [ex_slot], appointments = [ex_appt\<lparr>status := ''CANCELLED''\<rparr>]\<rparr>
   \<and> cancel ''MB-20240105-0001'' (snd (cancel ''MB-20240105-0001'' ex_booked)) =
     (Inr (), \<lparr>slots = [ex_slot], appointments = [ex_appt\<lparr>status := ''CANCELLED''\<rparr>]\<rparr>)"
proof -
  have found: "find (\<lambda>a. confirmation_code a = ''MB-20240105-0001'') (appointments ex_booked) = Some ex_appt
      \<and> status ex_appt = ''RESERVED''"
    by (simp add: ex_booked_def ex_appt_def)
  note inst = cancel_only_reserved [of "''MB-20240105-0001''" ex_booked]
  from inst found have
    a: "appointments (snd (cancel ''MB-20240105-0001'' ex_booked)) =
          map (\<lambda>a. if confirmation_code a = ''MB-20240105-0001'' then a\<lparr>status := ''CANCELLED''\<rparr> else a)
            (appointments ex_booked)"
    and b: "slots (snd (cancel ''MB-20240105-0001'' ex_booked)) =
          set_booked False (slot_id ex_appt) (slots ex_booked)"
    by blast+
  have a': "appointments (snd (cancel ''MB-20240105-0001'' ex_booked)) = [ex_appt\<lparr>status := ''CANCELLED''\<rparr>]"
    unfolding a by (simp add: ex_booked_def ex_appt_def)
  have b': "slots (snd (cancel ''MB-20240105-0001'' ex_booked)) = [ex_slot]"
    unfolding b by (simp add: ex_booked_def ex_appt_def ex_slot_def set_booked_def)
  have once: "snd (cancel ''MB-20240105-0001'' ex_booked) =
     \<lparr>slots = [ex_slot], appointments = [ex_appt\<lparr>status := ''CANCELLED''\<rparr>]\<rparr>"
    using a' b' by (cases "snd (cancel ''MB-20240105-0001'' ex_booked)") simp
  from inst have
    "fst (cancel ''MB-20240105-0001'' (snd (cancel ''MB-20240105-0001'' ex_booked))) = Inr ()"
    "snd (cancel ''MB-20240105-0001'' (snd (cancel ''MB-20240105-0001'' ex_booked))) =
     snd (cancel ''MB-20240105-0001'' ex_booked)"
    by (simp_all add: cancel_succeeds)
  with once show ?thesis
    by (simp add: prod_eq_iff)
qed

section \<open>The staff's update\<close>

text \<open>
  Claim C6. Given a body with its three keys, \<^verbatim>\<open>admin_update\<close> answers success whatever
  the status string and whatever the appointment's current status. Every appointment
  with the given id gets the given status, meeting link and remarks and the clock
  reading as \<^verbatim>\<open>updated_at\<close>, its other fields staying as they were; every other appointment
  and the slot table are unchanged.
\<close>

theorem admin_update_overwrites:
  assumes "f_status f = Some st" and "f_meeting_link f = Some ml" and "f_remarks f = Some rm"
  shows "fst (admin_update i f t s) = Inr ()
       \<and> slots (snd (admin_update i f t s)) = slots s
       \<and> length (appointments (snd (admin_update i f t s))) = length (appointments s)
       \<and> (\<forall>k<length (appointments s).
            appointments (snd (admin_update i f t s)) ! k =
              (if a_id (appointments s ! k) = i
               then (appointments s ! k)\<lparr>status := st, meeting_link := Some ml,
                      admin_remarks := Some rm, updated_at := isoformat t\<rparr>
               else appointments s ! k))"
  using assms by (simp add: admin_update_def)

text \<open>The staff set the scenario's appointment to CANCELLED; the slot stays as it was.\<close>

theorem admin_update_overwrites_witness:
  "fst (admin_update 1 ex_update ex_time ex_booked) = Inr ()
   \<and> slots (snd (admin_update 1 ex_update ex_time ex_booked)) = [ex_slot\<lparr>is_booked := True\<rparr>]
   \<and> appointments (snd (admin_update 1 ex_update ex_time ex_booked)) ! 0 =
       ex_appt\<lparr>status := ''CANCELLED'', meeting_link := Some ''https://meet/1'',
         admin_remarks := Some ''patient called'', updated_at := ''2024-01-05T09:03:07''\<rparr>"
proof -
  have h: "f_status ex_update = Some ''CANCELLED''" "f_meeting_link ex_update = Some ''https://meet/1''"
    "f_remarks ex_update = Some ''patient called''"
    by (simp_all add: ex_update_def)
  have k: "0 < length (appointments ex_booked)" "appointments ex_booked ! 0 = ex_appt"
    "a_id ex_appt = 1" "slots ex_booked = [ex_slot\<lparr>is_booked := True\<rparr>]"
    by (simp_all add: ex_booked_def ex_appt_def)
  from admin_update_overwrites [OF h, of 1 ex_time ex_booked] k show ?thesis
    by (simp add: ex_iso)
qed

section \<open>The expiry sweep\<close>

lemma expire_rows_Cons:
  "expire_rows age threshold (a # as) sl =
     (if due age threshold a
      then (a\<lparr>status := ''EXPIRED''\<rparr> # fst (expire_rows age threshold as (set_booked False (slot_id a) sl)),
            snd (expire_rows age threshold as (set_booked False (slot_id a) sl)))
      else (a # fst (expire_rows age threshold as sl), snd (expire_rows age threshold as sl)))"
  by (simp add: case_prod_unfold)

lemma expire_rows_appointments:
  "fst (expire_rows age threshold as sl) =
   map (\<lambda>a. if due age threshold a then a\<lparr>status := ''EXPIRED''\<rparr> else a) as"
  by (induction as arbitrary: sl) (simp_all add: expire_rows_Cons del: expire_rows.simps(2))

lemma release_twice:
  "(if P then (r\<lparr>is_booked := False\<rparr>)\<lparr>is_booked := False\<rparr> else r\<lparr>is_booked := False\<rparr>) =
   r\<lparr>is_booked := False\<rparr>"
  by simp

lemma expire_rows_slots:
  "snd (expire_rows age threshold as sl) =
   map (\<lambda>r. if \<exists>a\<in>set as. due age threshold a \<and> slot_id a = s_id r
             then r\<lparr>is_booked := False\<rparr> else r) sl"
proof (induction as arbitrary: sl)
  case Nil
  show ?case by simp
next
  case (Cons a as)
  show ?case
  proof (cases "due age threshold a")
    case False
    then show ?thesis
      using Cons [of sl] by (simp add: expire_rows_Cons del: expire_rows.simps(2))
  next
    case True
    have step: "snd (expire_rows age threshold (a # as) sl) =
      snd (expire_rows age threshold as (set_booked False (slot_id a) sl))"
      using True by (simp add: expire_rows_Cons del: expire_rows.simps(2))
    have "map (\<lambda>r. if \<exists>b\<in>set as. due age threshold b \<and> slot_id b = s_id r
             then r\<lparr>is_booked := False\<rparr> else r) (set_booked False (slot_id a) sl) =
          map (\<lambda>r. if \<exists>b\<in>set (a # as). due age threshold b \<and> slot_id b = s_id r
             then r\<lparr>is_booked := False\<rparr> else r) sl"
      unfolding set_booked_def map_map
    proof (rule map_cong [OF refl])
      fix r
      show "((\<lambda>r. if \<exists>b\<in>set as. due age threshold b \<and> slot_id b = s_id r
             then r\<lparr>is_booked := False\<rparr> else r) \<circ>
            (\<lambda>r. if s_id r = slot_id a then r\<lparr>is_booked := False\<rparr> else r)) r =
           (if \<exists>b\<in>set (a # as). due age threshold b \<and> slot_id b = s_id r
             then r\<lparr>is_booked := False\<rparr> else r)"
      proof (cases "s_id r = slot_id a")
        case same: True
        then show ?thesis using True by (simp add: release_twice)
      next
        case other: False
        then have "(\<exists>b\<in>set (a # as). due age threshold b \<and> slot_id b = s_id r) =
                   (\<exists>b\<in>set as. due age threshold b \<and> slot_id b = s_id r)"
          by auto
        moreover have "(if s_id r = slot_id a then r\<lparr>is_booked := False\<rparr> else r) = r"
          using other by (simp only: if_False)
        ultimately show ?thesis by (simp only: comp_def)
      qed
    qed
    with step Cons [of "set_booked False (slot_id a) sl"] show ?thesis
      by simp
  qed
qed

lemma expire_rows_none_due:
  "\<forall>a\<in>set as. \<not> due age threshold a \<Longrightarrow> expire_rows age threshold as sl = (as, sl)"
  by (induction as arbitrary: sl) (simp_all add: expire_rows_Cons del: expire_rows.simps(2))

lemma auto_expire_reserved_eq:
  "auto_expire_reserved age threshold s =
     \<lparr>slots = snd (expire_rows age threshold (appointments s) (slots s)),
      appointments = fst (expire_rows age threshold (appointments s) (slots s))\<rparr>"
  by (simp add: auto_expire_reserved_def split: prod.splits)

lemma auto_expire_reserved_twice:
  "auto_expire_reserved age threshold (auto_expire_reserved age threshold s) =
   auto_expire_reserved age threshold s"
proof -
  define s' where "s' = auto_expire_reserved age threshold s"
  have "appointments s' =
      map (\<lambda>a. if due age threshold a then a\<lparr>status := ''EXPIRED''\<rparr> else a) (appointments s)"
    unfolding s'_def auto_expire_reserved_eq by (simp add: expire_rows_appointments)
  then have "\<forall>a\<in>set (appointments s'). \<not> due age threshold a"
    by (auto simp: due_def)
  then have "expire_rows age threshold (appointments s') (slots s') = (appointments s', slots s')"
    by (rule expire_rows_none_due)
  then have "auto_expire_reserved age threshold s' = s'"
    by (simp add: auto_expire_reserved_eq)
  then show ?thesis by (simp only: s'_def)
qed

text \<open>
  Claim C7, on the sweep as section 4.2 of the spec describes it. A run sets the status
  of every appointment that is RESERVED and older than the threshold to EXPIRED and
  leaves every other appointment, the RESERVED ones within the threshold among them, as
  it was. A slot row is released (\<^verbatim>\<open>is_booked\<close> 0) when such an appointment references it
  and is unchanged otherwise. A second run on the result changes nothing.
\<close>

theorem auto_expire_reserved_sweep:
  "appointments (auto_expire_reserved age threshold s) =
     map (\<lambda>a. if status a = ''RESERVED'' \<and> threshold < age (created_at a)
               then a\<lparr>status := ''EXPIRED''\<rparr> else a) (appointments s)
   \<and> slots (auto_expire_reserved age threshold s) =
     map (\<lambda>r. if \<exists>a\<in>set (appointments s).
                    (status a = ''RESERVED'' \<and> threshold < age (created_at a)) \<and> slot_id a = s_id r
               then r\<lparr>is_booked := False\<rparr> else r) (slots s)
   \<and> auto_expire_reserved age threshold (auto_expire_reserved age threshold s) =
     auto_expire_reserved age threshold s"
proof (intro conjI)
  show "appointments (auto_expire_reserved age threshold s) =
     map (\<lambda>a. if status a = ''RESERVED'' \<and> threshold < age (created_at a)
               then a\<lparr>status := ''EXPIRED''\<rparr> else a) (appointments s)"
    unfolding auto_expire_reserved_eq using expire_rows_appointments [of age threshold]
    by (simp add: due_def)
  show "slots (auto_expire_reserved age threshold s) =
     map (\<lambda>r. if \<exists>a\<in>set (appointments s).
                    (status a = ''RESERVED'' \<and> threshold < age (created_at a)) \<and> slot_id a = s_id r
               then r\<lparr>is_booked := False\<rparr> else r) (slots s)"
    unfolding auto_expire_reserved_eq using expire_rows_slots [of age threshold]
    by (simp add: due_def)
  show "auto_expire_reserved age threshold (auto_expire_reserved age threshold s) =
     auto_expire_reserved age threshold s"
    by (rule auto_expire_reserved_twice)
qed

text \<open>
  The scenario of the spec: threshold 30 minutes (1800 seconds), sweep 31 minutes after
  the booking. The appointment expires and the slot is free again.
\<close>

theorem auto_expire_reserved_sweep_witness:
  "auto_expire_reserved (\<lambda>created. 1860) 1800 ex_booked =
     \<lparr>slots = [ex_slot], appointments = [ex_appt\<lparr>status := ''EXPIRED''\<rparr>]\<rparr>
   \<and> auto_expire_reserved (\<lambda>created. 1740) 1800 ex_booked = ex_booked"
proof -
  have late: "auto_expire_reserved (\<lambda>created. 1860) 1800 ex_booked =
     \<lparr>slots = [ex_slot], appointments = [ex_appt\<lparr>status := ''EXPIRED''\<rparr>]\<rparr>"
    using auto_expire_reserved_sweep [of "\<lambda>created. 1860" 1800 ex_booked]
    by (cases "auto_expire_reserved (\<lambda>created. 1860) 1800 ex_booked")
      (simp add: ex_booked_def ex_appt_def ex_slot_def)
  have early: "auto_expire_reserved (\<lambda>created. 1740) 1800 ex_booked = ex_booked"
    using auto_expire_reserved_sweep [of "\<lambda>created. 1740" 1800 ex_booked]
    by (cases "auto_expire_reserved (\<lambda>created. 1740) 1800 ex_booked")
      (simp add: ex_booked_def ex_appt_def ex_slot_def)
  from late early show ?thesis by (rule conjI)
qed

section \<open>Confirmation codes\<close>

lemma codes_numbered_distinct:
  assumes "codes_numbered cs"
  shows "distinct cs"
proof -
  have "cs ! i \<noteq> cs ! j" if "i < length cs" and "j < length cs" and "i \<noteq> j" for i j
  proof
    assume eq: "cs ! i = cs ! j"
    from assms that(1) obtain t where "cs ! i = make_code t (Suc i)"
      unfolding codes_numbered_def by blast
    moreover from assms that(2) obtain t' where "cs ! j = make_code t' (Suc j)"
      unfolding codes_numbered_def by blast
    ultimately have "make_code t (Suc i) = make_code t' (Suc j)"
      using eq by simp
    then have "Suc i = Suc j" by (rule make_code_inject)
    with that(3) show False by simp
  qed
  then show ?thesis
    by (simp add: distinct_conv_nth)
qed

lemma codes_numbered_snoc:
  assumes "codes_numbered cs"
  shows "codes_numbered (cs @ [make_code t (Suc (length cs))])"
  unfolding codes_numbered_def
proof (intro allI impI)
  fix i
  assume "i < length (cs @ [make_code t (Suc (length cs))])"
  then consider "i < length cs" | "i = length cs" by fastforce
  then show "\<exists>u. (cs @ [make_code t (Suc (length cs))]) ! i = make_code u (Suc i)"
  proof cases
    case 1
    with assms show ?thesis by (simp add: codes_numbered_def nth_append)
  next
    case 2
    then show ?thesis by auto
  qed
qed

lemma codes_of_map:
  assumes "\<And>a. confirmation_code (g a) = confirmation_code a"
  shows "map confirmation_code (map g as) = map confirmation_code as"
  by (simp add: assms)

lemma add_slot_codes:
  "map confirmation_code (appointments (snd (add_slot f s))) = map confirmation_code (appointments s)"
  by (simp add: add_slot_def split: option.splits)

lemma book_codes:
  "map confirmation_code (appointments (snd (book f t_code t_now s))) =
     map confirmation_code (appointments s)
   \<or> map confirmation_code (appointments (snd (book f t_code t_now s))) =
     map confirmation_code (appointments s) @ [make_code t_code (Suc (length (appointments s)))]"
  by (simp add: book_def Let_def split: option.splits)

lemma cancel_codes:
  "map confirmation_code (appointments (snd (cancel code s))) = map confirmation_code (appointments s)"
  by (simp add: cancel_def codes_of_map split: option.splits)

lemma admin_update_codes:
  "map confirmation_code (appointments (snd (admin_update i f t s))) =
   map confirmation_code (appointments s)"
  by (simp add: admin_update_def codes_of_map split: option.splits)

lemma auto_expire_reserved_codes:
  "map confirmation_code (appointments (auto_expire_reserved age threshold s)) =
   map confirmation_code (appointments s)"
  by (simp add: auto_expire_reserved_eq expire_rows_appointments codes_of_map)

lemma apply_op_codes_numbered:
  assumes "codes_numbered (map confirmation_code (appointments s))"
  shows "codes_numbered (map confirmation_code (appointments (apply_op x s)))"
proof (cases x)
  case (AddSlot f)
  with assms show ?thesis by (simp add: add_slot_codes)
next
  case (Book f t_code t_now)
  from book_codes [of f t_code t_now s]
  show ?thesis
  proof
    assume "map confirmation_code (appointments (snd (book f t_code t_now s))) =
      map confirmation_code (appointments s)"
    with assms Book show ?thesis by simp
  next
    assume "map confirmation_code (appointments (snd (book f t_code t_now s))) =
      map confirmation_code (appointments s) @ [make_code t_code (Suc (length (appointments s)))]"
    with codes_numbered_snoc [OF assms, of t_code] Book show ?thesis by simp
  qed
next
  case (Cancel code)
  with assms show ?thesis by (simp add: cancel_codes)
next
  case (UpdateStatus i f t)
  with assms show ?thesis by (simp add: admin_update_codes)
next
  case (ExpirySweep age threshold)
  with assms show ?thesis by (simp add: auto_expire_reserved_codes)
qed




section \<open>Requests with missing or empty fields\<close>




section \<open>Booked slots and active appointments\<close>

subsection \<open>What the other operations preserve\<close>

lemma active_on_snoc:
  "active_on sid (as @ [a]) = active_on sid as @ (if slot_id a = sid \<and> active a then [a] else [])"
  by (simp add: active_on_def)

lemma length_active_on_deactivate:
  assumes "st \<noteq> ''RESERVED''" and "st \<noteq> ''CONFIRMED''"
  shows "length (active_on sid (map (\<lambda>a. if P a then a\<lparr>status := st\<rparr> else a) as)) =
         length (filter (\<lambda>a. slot_id a = sid \<and> active a \<and> \<not> P a) as)"
  using assms by (induction as) (simp_all add: active_on_def active_def)

lemma length_filter_drop_none:
  assumes "\<forall>a\<in>set as. Q a \<longrightarrow> \<not> P a"
  shows "length (filter (\<lambda>a. Q a \<and> \<not> P a) as) = length (filter Q as)"
proof -
  have "filter (\<lambda>a. Q a \<and> \<not> P a) as = filter Q as"
    using assms by (intro filter_cong) auto
  then show ?thesis by simp
qed

lemma length_filter_drop_all:
  assumes "\<forall>a\<in>set as. Q a \<longrightarrow> P a"
  shows "length (filter (\<lambda>a. Q a \<and> \<not> P a) as) = 0"
  using assms by (auto simp: filter_empty_conv)

lemma at_most_one_member:
  assumes "length xs \<le> 1" and "x \<in> set xs" and "y \<in> set xs"
  shows "x = y"
proof (cases xs)
  case Nil
  with assms(2) show ?thesis by simp
next
  case (Cons z zs)
  with assms(1) have "zs = []" by simp
  with Cons assms(2,3) show ?thesis by simp
qed

lemma next_rowid_fresh: "next_rowid ids \<notin> set ids"
proof (cases "ids = []")
  case True
  then show ?thesis by simp
next
  case False
  have "Max (set ids) + 1 \<notin> set ids"
  proof
    assume "Max (set ids) + 1 \<in> set ids"
    then have "Max (set ids) + 1 \<le> Max (set ids)" by (intro Max_ge) simp_all
    then show False by simp
  qed
  with False show ?thesis by (simp add: next_rowid_def)
qed

lemma slots_matchI:
  assumes "\<And>r. r \<in> set (slots s) \<Longrightarrow>
      length (active_on (s_id r) (appointments s)) = (if is_booked r then 1 else 0)"
    and "\<And>a. a \<in> set (appointments s) \<Longrightarrow> active a \<Longrightarrow> slot_id a \<in> set (map s_id (slots s))"
  shows "slots_match s"
  unfolding slots_match_def using assms by blast

lemma slots_match_count:
  "slots_match s \<Longrightarrow> r \<in> set (slots s) \<Longrightarrow>
   length (active_on (s_id r) (appointments s)) = (if is_booked r then 1 else 0)"
  unfolding slots_match_def by blast

lemma slots_match_ref:
  "slots_match s \<Longrightarrow> a \<in> set (appointments s) \<Longrightarrow> active a \<Longrightarrow>
   slot_id a \<in> set (map s_id (slots s))"
  unfolding slots_match_def by blast

lemma slots_match_add_slot:
  assumes "slots_match s"
  shows "slots_match (snd (add_slot f s))"
proof (cases "\<exists>d st en. f_slot_date f = Some d \<and> f_start_time f = Some st \<and> f_end_time f = Some en")
  case False
  then have "snd (add_slot f s) = s"
    by (auto simp: add_slot_def split: option.splits)
  with assms show ?thesis by simp
next
  case True
  then obtain d st en where
    f: "f_slot_date f = Some d" "f_start_time f = Some st" "f_end_time f = Some en" by blast
  define new where "new = \<lparr>s_id = next_rowid (map s_id (slots s)), slot_date = d, start_time = st,
                 end_time = en, is_booked = False\<rparr>"
  have eq: "snd (add_slot f s) = s\<lparr>slots := slots s @ [new]\<rparr>"
    using f by (simp add: add_slot_def new_def)
  have fresh: "s_id new \<notin> set (map s_id (slots s))"
    unfolding new_def using next_rowid_fresh [of "map s_id (slots s)"] by simp
  have none: "active_on (s_id new) (appointments s) = []"
  proof -
    have "\<not> (slot_id a = s_id new \<and> active a)" if "a \<in> set (appointments s)" for a
      using slots_match_ref [OF assms that] fresh by auto
    then show ?thesis by (simp add: active_on_def filter_empty_conv)
  qed
  show ?thesis
  proof (rule slots_matchI)
    fix r
    assume "r \<in> set (slots (snd (add_slot f s)))"
    then consider "r \<in> set (slots s)" | "r = new" unfolding eq by auto
    then show "length (active_on (s_id r) (appointments (snd (add_slot f s)))) =
        (if is_booked r then 1 else 0)"
    proof cases
      case 1
      then show ?thesis unfolding eq using slots_match_count [OF assms] by simp
    next
      case 2
      have "\<not> is_booked new" by (simp add: new_def)
      with 2 none show ?thesis unfolding eq by simp
    qed
  next
    fix a
    assume "a \<in> set (appointments (snd (add_slot f s)))" and "active a"
    then show "slot_id a \<in> set (map s_id (slots (snd (add_slot f s))))"
      unfolding eq using slots_match_ref [OF assms] by simp
  qed
qed

lemma slots_match_book:
  assumes "slots_match s"
  shows "slots_match (snd (book f t_code t_now s))"
proof (cases "fst (book f t_code t_now s)")
  case (Inl e)
  then have "snd (book f t_code t_now s) = s"
    by (auto simp: book_def Let_def split: option.splits)
  with assms show ?thesis by simp
next
  case (Inr code)
  then have "book f t_code t_now s = (Inr code, snd (book f t_code t_now s))"
    by (simp add: prod_eq_iff)
  then obtain sid slot pn mb ad where
    h: "f_slot_id f = Some sid"
    "find (\<lambda>r. s_id r = sid \<and> \<not> is_booked r) (slots s) = Some slot"
    "f_patient_name f = Some pn" "f_mobile f = Some mb" "f_address f = Some ad"
    "fits_int64 sid"
    by (rule book_InrD)
  from h(2) have slot: "s_id slot = sid" "\<not> is_booked slot" "slot \<in> set (slots s)"
    using find_SomeD by fastforce+
  define a where "a = \<lparr>a_id = next_rowid (map a_id (appointments s)),
           confirmation_code = make_code t_code (length (appointments s) + 1),
           patient_name = pn, mobile = mb, address = ad,
           slot_id = s_id slot,
           appointment_date = slot_date slot,
           slot_time = start_time slot @ ''-'' @ end_time slot,
           status = ''RESERVED'', meeting_link = None, admin_remarks = None,
           created_at = isoformat t_now, updated_at = isoformat t_now\<rparr>"
  have a: "slot_id a = sid" "active a"
    using slot(1) by (simp_all add: a_def active_def)
  have eq: "snd (book f t_code t_now s) =
      \<lparr>slots = set_booked True sid (slots s), appointments = appointments s @ [a]\<rparr>"
    using book_found [OF h, of t_code t_now] slot(1) by (simp add: a_def)
  have free: "length (active_on sid (appointments s)) = 0"
    using slots_match_count [OF assms slot(3)] slot(1,2) by simp
  show ?thesis
  proof (rule slots_matchI)
    fix r
    assume "r \<in> set (slots (snd (book f t_code t_now s)))"
    then have "r \<in> set (set_booked True sid (slots s))" unfolding eq by simp
    then show "length (active_on (s_id r) (appointments (snd (book f t_code t_now s)))) =
        (if is_booked r then 1 else 0)"
    proof (cases rule: set_booked_cases)
      case (1 r')
      then have "s_id r = sid" "is_booked r" by simp_all
      with free a show ?thesis unfolding eq by (simp add: active_on_snoc)
    next
      case 2
      with a slots_match_count [OF assms, of r] show ?thesis
        unfolding eq by (simp add: active_on_snoc)
    qed
  next
    fix b
    assume "b \<in> set (appointments (snd (book f t_code t_now s)))" and "active b"
    then consider "b \<in> set (appointments s)" | "b = a" unfolding eq by auto
    then show "slot_id b \<in> set (map s_id (slots (snd (book f t_code t_now s))))"
    proof cases
      case 1
      with \<open>active b\<close> slots_match_ref [OF assms] show ?thesis
        unfolding eq by (simp add: set_booked_s_id)
    next
      case 2
      have "sid \<in> set (map s_id (slots s))" using slot(1,3) by force
      with 2 a(1) show ?thesis unfolding eq by (simp add: set_booked_s_id)
    qed
  qed
qed

lemma slots_match_release:
  assumes inv: "slots_match s"
    and st: "st \<noteq> ''RESERVED''" "st \<noteq> ''CONFIRMED''"
    and R: "\<And>r. r \<in> set (slots s) \<Longrightarrow>
      R r = (\<exists>a\<in>set (appointments s). P a \<and> active a \<and> slot_id a = s_id r)"
  shows "slots_match
     \<lparr>slots = map (\<lambda>r. if R r then r\<lparr>is_booked := False\<rparr> else r) (slots s),
      appointments = map (\<lambda>a. if P a then a\<lparr>status := st\<rparr> else a) (appointments s)\<rparr>"
proof (rule slots_matchI)
  fix r'
  assume "r' \<in> set (slots
     \<lparr>slots = map (\<lambda>r. if R r then r\<lparr>is_booked := False\<rparr> else r) (slots s),
      appointments = map (\<lambda>a. if P a then a\<lparr>status := st\<rparr> else a) (appointments s)\<rparr>)"
  then obtain r where r: "r \<in> set (slots s)" "r' = (if R r then r\<lparr>is_booked := False\<rparr> else r)"
    by auto
  have count: "length (active_on (s_id r) (appointments s)) = (if is_booked r then 1 else 0)"
    using inv r(1) by (rule slots_match_count)
  have new: "length (active_on (s_id r)
        (map (\<lambda>a. if P a then a\<lparr>status := st\<rparr> else a) (appointments s))) =
      (if R r then 0 else if is_booked r then 1 else 0)"
  proof (cases "R r")
    case True
    with R [OF r(1)] obtain a0 where
      a0: "a0 \<in> set (appointments s)" "P a0" "active a0" "slot_id a0 = s_id r" by blast
    then have in0: "a0 \<in> set (active_on (s_id r) (appointments s))"
      by (simp add: active_on_def)
    have le: "length (active_on (s_id r) (appointments s)) \<le> 1"
      using count by simp
    have "P a" if "a \<in> set (appointments s)" and "slot_id a = s_id r \<and> active a" for a
    proof -
      from that have "a \<in> set (active_on (s_id r) (appointments s))"
        by (simp add: active_on_def)
      with le in0 have "a0 = a" by (rule at_most_one_member)
      with a0(2) show ?thesis by simp
    qed
    then have "length (filter (\<lambda>a. (slot_id a = s_id r \<and> active a) \<and> \<not> P a) (appointments s)) = 0"
      by (intro length_filter_drop_all) blast
    then have "length (filter (\<lambda>a. slot_id a = s_id r \<and> active a \<and> \<not> P a) (appointments s)) = 0"
      by (simp add: conj_assoc)
    with True show ?thesis
      by (simp only: length_active_on_deactivate [OF st] if_True)
  next
    case False
    with R [OF r(1)] have "\<forall>a\<in>set (appointments s). slot_id a = s_id r \<and> active a \<longrightarrow> \<not> P a"
      by blast
    then have "length (filter (\<lambda>a. (slot_id a = s_id r \<and> active a) \<and> \<not> P a) (appointments s)) =
        length (filter (\<lambda>a. slot_id a = s_id r \<and> active a) (appointments s))"
      by (rule length_filter_drop_none)
    then have "length (filter (\<lambda>a. slot_id a = s_id r \<and> active a \<and> \<not> P a) (appointments s)) =
        length (active_on (s_id r) (appointments s))"
      by (simp add: conj_assoc active_on_def)
    with False count show ?thesis
      by (simp only: length_active_on_deactivate [OF st] if_False)
  qed
  have id: "s_id r' = s_id r" and bk: "is_booked r' = (if R r then False else is_booked r)"
    using r(2) by simp_all
  show "length (active_on (s_id r') (appointments
     \<lparr>slots = map (\<lambda>r. if R r then r\<lparr>is_booked := False\<rparr> else r) (slots s),
      appointments = map (\<lambda>a. if P a then a\<lparr>status := st\<rparr> else a) (appointments s)\<rparr>)) =
      (if is_booked r' then 1 else 0)"
    using new by (simp add: id bk)
next
  fix b
  assume b: "b \<in> set (appointments
     \<lparr>slots = map (\<lambda>r. if R r then r\<lparr>is_booked := False\<rparr> else r) (slots s),
      appointments = map (\<lambda>a. if P a then a\<lparr>status := st\<rparr> else a) (appointments s)\<rparr>)"
    and act: "active b"
  from b obtain a where a: "a \<in> set (appointments s)" "b = (if P a then a\<lparr>status := st\<rparr> else a)"
    by auto
  have "\<not> P a"
  proof
    assume "P a"
    with a(2) have "status b = st" by simp
    with act st show False by (simp add: active_def)
  qed
  with a(2) have "b = a" by simp
  with a(1) act have "slot_id b \<in> set (map s_id (slots s))"
    using slots_match_ref [OF inv] by simp
  moreover have "map s_id (map (\<lambda>r. if R r then r\<lparr>is_booked := False\<rparr> else r) (slots s)) =
      map s_id (slots s)"
    by (induction "slots s") simp_all
  ultimately show "slot_id b \<in> set (map s_id (slots
     \<lparr>slots = map (\<lambda>r. if R r then r\<lparr>is_booked := False\<rparr> else r) (slots s),
      appointments = map (\<lambda>a. if P a then a\<lparr>status := st\<rparr> else a) (appointments s)\<rparr>))"
    by simp
qed

lemma slots_match_cancel:
  assumes inv: "slots_match s" and codes: "distinct (map confirmation_code (appointments s))"
  shows "slots_match (snd (cancel code s))"
proof (cases "find (\<lambda>a. confirmation_code a = code) (appointments s)")
  case None
  with inv show ?thesis by (simp add: cancel_not_found)
next
  case (Some appt)
  show ?thesis
  proof (cases "status appt = ''RESERVED''")
    case False
    with Some inv show ?thesis by (simp add: cancel_not_reserved)
  next
    case True
    have appt: "appt \<in> set (appointments s)" "confirmation_code appt = code" "active appt"
      using find_SomeD [OF Some] True by (simp_all add: active_def)
    have same: "a = appt" if "a \<in> set (appointments s)" and "confirmation_code a = code" for a
    proof -
      from codes have "inj_on confirmation_code (set (appointments s))"
        by (simp add: distinct_map)
      with that appt(1,2) show ?thesis by (simp add: inj_on_def)
    qed
    have R: "(s_id r = slot_id appt) =
        (\<exists>a\<in>set (appointments s). confirmation_code a = code \<and> active a \<and> slot_id a = s_id r)"
      for r
    proof
      assume "s_id r = slot_id appt"
      with appt show "\<exists>a\<in>set (appointments s). confirmation_code a = code \<and> active a \<and> slot_id a = s_id r"
        by auto
    next
      assume "\<exists>a\<in>set (appointments s). confirmation_code a = code \<and> active a \<and> slot_id a = s_id r"
      then obtain a where "a \<in> set (appointments s)" "confirmation_code a = code" "slot_id a = s_id r"
        by blast
      with same [of a] show "s_id r = slot_id appt" by simp
    qed
    have "slots_match
      \<lparr>slots = map (\<lambda>r. if s_id r = slot_id appt then r\<lparr>is_booked := False\<rparr> else r) (slots s),
       appointments = map (\<lambda>a. if confirmation_code a = code then a\<lparr>status := ''CANCELLED''\<rparr> else a)
         (appointments s)\<rparr>"
      using inv _ _ R by (rule slots_match_release) simp_all
    then show ?thesis
      by (simp add: cancel_reserved [OF Some True] set_booked_def)
  qed
qed

lemma slots_match_sweep:
  assumes inv: "slots_match s"
  shows "slots_match (auto_expire_reserved age threshold s)"
proof -
  have R: "(\<exists>a\<in>set (appointments s). due age threshold a \<and> slot_id a = s_id r) =
      (\<exists>a\<in>set (appointments s). due age threshold a \<and> active a \<and> slot_id a = s_id r)" for r
    by (auto simp: due_def active_def)
  have "slots_match
      \<lparr>slots = map (\<lambda>r. if \<exists>a\<in>set (appointments s). due age threshold a \<and> slot_id a = s_id r
                        then r\<lparr>is_booked := False\<rparr> else r) (slots s),
       appointments = map (\<lambda>a. if due age threshold a then a\<lparr>status := ''EXPIRED''\<rparr> else a)
         (appointments s)\<rparr>"
    using inv _ _ R by (rule slots_match_release) simp_all
  then show ?thesis
    by (simp add: auto_expire_reserved_eq expire_rows_appointments expire_rows_slots)
qed

lemma apply_op_slots_match:
  assumes "slots_match s" and "codes_numbered (map confirmation_code (appointments s))"
    and "\<not> is_update x"
  shows "slots_match (apply_op x s)"
proof (cases x)
  case (AddSlot f)
  with assms(1) show ?thesis by (simp add: slots_match_add_slot)
next
  case (Book f t_code t_now)
  with assms(1) show ?thesis by (simp add: slots_match_book)
next
  case (Cancel code)
  from assms(2) have "distinct (map confirmation_code (appointments s))"
    by (rule codes_numbered_distinct)
  with assms(1) Cancel show ?thesis by (simp add: slots_match_cancel)
next
  case (UpdateStatus i f t)
  with assms(3) show ?thesis by simp
next
  case (ExpirySweep age threshold)
  with assms(1) show ?thesis by (simp add: slots_match_sweep)
qed

lemma run_slots_match:
  assumes "slots_match s" and "codes_numbered (map confirmation_code (appointments s))"
    and "\<forall>x\<in>set ops. \<not> is_update x"
  shows "slots_match (run ops s)"
  using assms unfolding run_def
proof (induction ops arbitrary: s)
  case Nil
  then show ?case by simp
next
  case (Cons x ops)
  have "slots_match (apply_op x s)"
    using Cons.prems by (simp add: apply_op_slots_match)
  moreover have "codes_numbered (map confirmation_code (appointments (apply_op x s)))"
    using Cons.prems(2) by (rule apply_op_codes_numbered)
  ultimately show ?case
    using Cons.IH [of "apply_op x s"] Cons.prems(3) by simp
qed

text \<open>
  Without \<^verbatim>\<open>admin_update\<close> the invariant holds: in every state that \<^verbatim>\<open>add_slot\<close>, \<^verbatim>\<open>book\<close>,
  \<^verbatim>\<open>cancel\<close> and the sweep reach from the empty tables, a slot is booked exactly when one
  active appointment references it.
\<close>

lemma slot_invariant_without_update:
  assumes "\<forall>x\<in>set ops. \<not> is_update x" and "r \<in> set (slots (run ops empty_db))"
  shows "is_booked r = (length (active_on (s_id r) (appointments (run ops empty_db))) = 1)"
proof -
  have "slots_match empty_db"
    by (simp add: slots_match_def empty_db_def)
  moreover have "codes_numbered (map confirmation_code (appointments empty_db))"
    by (simp add: codes_numbered_def empty_db_def)
  ultimately have "slots_match (run ops empty_db)"
    using assms(1) by (rule run_slots_match)
  from slots_match_count [OF this assms(2)] show ?thesis
    by (simp split: if_splits)
qed

subsection \<open>What the staff's update does to it\<close>

text \<open>
  Claim C1 at a reachable state. A slot is added and booked, and the staff set the
  appointment to CANCELLED with \<^verbatim>\<open>admin_update\<close>, which writes no slot: the slot stays
  booked with no active appointment. Where the patient cancels instead, \<^verbatim>\<open>cancel\<close>
  releases the slot; if the staff then set the appointment to CONFIRMED, the slot is
  free with an active appointment on it.
\<close>

theorem admin_update_breaks_slot_invariant:
  "map is_booked (slots (run [AddSlot ex_slot_form, Book ex_book ex_time ex_time,
       UpdateStatus 1 ex_update ex_time] empty_db)) = [True]
   \<and> active_on 1 (appointments (run [AddSlot ex_slot_form, Book ex_book ex_time ex_time,
       UpdateStatus 1 ex_update ex_time] empty_db)) = []
   \<and> map is_booked (slots (run [AddSlot ex_slot_form, Book ex_book ex_time ex_time,
       Cancel ''MB-20240105-0001'',
       UpdateStatus 1 (ex_update\<lparr>f_status := Some ''CONFIRMED''\<rparr>) ex_time] empty_db)) = [False]
   \<and> length (active_on 1 (appointments (run [AddSlot ex_slot_form, Book ex_book ex_time ex_time,
       Cancel ''MB-20240105-0001'',
       UpdateStatus 1 (ex_update\<lparr>f_status := Some ''CONFIRMED''\<rparr>) ex_time] empty_db))) = 1"
  by code_simp

section \<open>Two requests for one slot\<close>

text \<open>The two parts of \<^verbatim>\<open>book\<close>, one after the other with nothing in between, are \<^verbatim>\<open>book\<close>.\<close>

lemma book_read_then_write:
  "book f t_code t_now s = book_finish f (book_read f t_code t_now s) s"
  by (simp add: book_def book_read_def book_write_def book_finish_def Let_def
      split: option.splits)

lemma book_read_free:
  assumes "f_slot_id f = Some sid" and "fits_int64 sid"
    and "slot \<in> set (slots s)" and "s_id slot = sid" and "\<not> is_booked slot"
  shows "\<exists>r. book_read f t_code t_now s =
           Inr \<lparr>r_slot = r, r_code = make_code t_code (length (appointments s) + 1),
                r_now = isoformat t_now\<rparr>
         \<and> s_id r = sid"
proof -
  from assms(3-5) obtain r where
    "find (\<lambda>r. s_id r = sid \<and> \<not> is_booked r) (slots s) = Some r" "s_id r = sid"
    using find_free_slot_Some by blast
  with assms(1,2) show ?thesis by (simp add: book_read_def)
qed

lemma book_write_appends:
  assumes "f_patient_name f = Some pn" and "f_mobile f = Some mb" and "f_address f = Some ad"
  shows "\<exists>a. book_write f r s =
           (Inr (r_code r),
            \<lparr>slots = set_booked True (s_id (r_slot r)) (slots s),
             appointments = appointments s @ [a]\<rparr>)
         \<and> slot_id a = s_id (r_slot r) \<and> active a"
  using assms by (simp add: book_write_def active_def)

text \<open>
  Whatever the state, the slot and the two bodies: when the slot is free and both
  requests read before either writes, both are answered with a code, made from the same
  count, and the slot has two more active appointments than before.
\<close>

lemma book_race_both_succeed:
  assumes "f_slot_id f1 = Some sid" and "f_slot_id f2 = Some sid" and "fits_int64 sid"
    and "f_patient_name f1 = Some pn1" and "f_mobile f1 = Some mb1" and "f_address f1 = Some ad1"
    and "f_patient_name f2 = Some pn2" and "f_mobile f2 = Some mb2" and "f_address f2 = Some ad2"
    and "slot \<in> set (slots s)" and "s_id slot = sid" and "\<not> is_booked slot"
  shows "\<exists>s'. book_read_read_write_write f1 t_code1 t_now1 f2 t_code2 t_now2 s =
           (Inr (make_code t_code1 (length (appointments s) + 1)),
            Inr (make_code t_code2 (length (appointments s) + 1)), s')
         \<and> length (active_on sid (appointments s')) = length (active_on sid (appointments s)) + 2"
proof -
  from book_read_free [OF assms(1,3,10-12), of t_code1 t_now1] obtain r1 where
    r1: "book_read f1 t_code1 t_now1 s =
           Inr \<lparr>r_slot = r1, r_code = make_code t_code1 (length (appointments s) + 1),
                r_now = isoformat t_now1\<rparr>" "s_id r1 = sid"
    by blast
  from book_read_free [OF assms(2,3,10-12), of t_code2 t_now2] obtain r2 where
    r2: "book_read f2 t_code2 t_now2 s =
           Inr \<lparr>r_slot = r2, r_code = make_code t_code2 (length (appointments s) + 1),
                r_now = isoformat t_now2\<rparr>" "s_id r2 = sid"
    by blast
  define x1 where "x1 = \<lparr>r_slot = r1, r_code = make_code t_code1 (length (appointments s) + 1),
                r_now = isoformat t_now1\<rparr>"
  define x2 where "x2 = \<lparr>r_slot = r2, r_code = make_code t_code2 (length (appointments s) + 1),
                r_now = isoformat t_now2\<rparr>"
  from book_write_appends [OF assms(4-6), of x1 s] obtain a1 where
    w1: "book_write f1 x1 s =
           (Inr (r_code x1),
            \<lparr>slots = set_booked True (s_id (r_slot x1)) (slots s),
             appointments = appointments s @ [a1]\<rparr>)"
      "slot_id a1 = s_id (r_slot x1)" "active a1"
    by blast
  define s1 where "s1 = \<lparr>slots = set_booked True (s_id (r_slot x1)) (slots s),
             appointments = appointments s @ [a1]\<rparr>"
  from book_write_appends [OF assms(7-9), of x2 s1] obtain a2 where
    w2: "book_write f2 x2 s1 =
           (Inr (r_code x2),
            \<lparr>slots = set_booked True (s_id (r_slot x2)) (slots s1),
             appointments = appointments s1 @ [a2]\<rparr>)"
      "slot_id a2 = s_id (r_slot x2)" "active a2"
    by blast
  have ids: "slot_id a1 = sid" "slot_id a2 = sid"
    using w1(2) w2(2) r1(2) r2(2) by (simp_all add: x1_def x2_def)
  have reads: "book_read f1 t_code1 t_now1 s = Inr x1" "book_read f2 t_code2 t_now2 s = Inr x2"
    unfolding x1_def x2_def by (rule r1(1), rule r2(1))
  have first: "book_write f1 x1 s = (Inr (r_code x1), s1)"
    unfolding s1_def by (rule w1(1))
  have run: "book_read_read_write_write f1 t_code1 t_now1 f2 t_code2 t_now2 s =
      (Inr (r_code x1), Inr (r_code x2),
       \<lparr>slots = set_booked True (s_id (r_slot x2)) (slots s1),
        appointments = appointments s1 @ [a2]\<rparr>)"
    by (simp add: book_read_read_write_write_def book_finish_def Let_def reads first w2(1))
  have "length (active_on sid (appointments s1 @ [a2])) =
      length (active_on sid (appointments s)) + 2"
    using ids w1(3) w2(3) by (simp add: s1_def active_on_def)
  with run show ?thesis
    by (simp add: x1_def x2_def)
qed

text \<open>
  Claim C8 at two concurrent requests. Patients A and B request the free slot of the
  scenario and both requests read before either writes. Both are answered with a
  confirmation code, the same one, and the slot ends with two active appointments. The
  claim has exactly one of them succeed.
\<close>

theorem book_race_double_books:
  "fst (book_read_read_write_write ex_book ex_time ex_time ex_rival ex_time ex_time ex_free) =
     Inr ''MB-20240105-0001''
   \<and> fst (snd (book_read_read_write_write ex_book ex_time ex_time ex_rival ex_time ex_time ex_free)) =
     Inr ''MB-20240105-0001''
   \<and> map patient_name (active_on 1 (appointments
       (snd (snd (book_read_read_write_write ex_book ex_time ex_time ex_rival ex_time ex_time
          ex_free))))) = [''A'', ''B'']"
  by code_simp

end
